theory Spec2Isabelle
  imports Complex_Main
begin

section \<open>Python values shared by the commands of poverlap.py\<close>

text \<open>
  Exceptions the modelled code can raise. A command either returns its result
  (\<open>Inr\<close>) or stops with one of these (\<open>Inl\<close>).
\<close>

datatype error = ValueError | IndexError | AssertionError | ZeroDivisionError

text \<open>
  The random source. Every call of \<open>random.randint\<close> consumes one cell of an
  infinite tape of naturals; \<open>randint tape c lo hi\<close> is the result of the call
  that reads cell \<open>c\<close>. Every value of the closed range \<open>[lo, hi]\<close> is produced
  by some tape. Both call sites of the program pass \<open>lo \<le> hi\<close>
  (\<open>randint(0, i)\<close> with a line index and \<open>randint(-dist, dist)\<close> with
  \<open>dist = abs(...)\<close>), so Python's ValueError for an empty range cannot occur.
\<close>

type_synonym tape = "nat \<Rightarrow> nat"

definition randint :: "tape \<Rightarrow> nat \<Rightarrow> int \<Rightarrow> int \<Rightarrow> int" where
  "randint tape c lo hi = lo + int (tape c mod nat (hi - lo + 1))"

text \<open>
  The position a Python subscript \<open>xs[i]\<close> denotes: \<open>i\<close> itself from the
  front, \<open>len(xs) + i\<close> for the negative subscripts down to \<open>-len(xs)\<close>, and
  none (IndexError) beyond either end. \<open>xs[i] = v\<close> stores at that position.
\<close>

definition py_index :: "'a list \<Rightarrow> int \<Rightarrow> nat option" where
  "py_index xs i =
     (if 0 \<le> i \<and> i < int (length xs) then Some (nat i)
      else if i < 0 \<and> - int (length xs) \<le> i then Some (nat (int (length xs) + i))
      else None)"

definition py_setitem :: "'a list \<Rightarrow> int \<Rightarrow> 'a \<Rightarrow> error + 'a list" where
  "py_setitem xs i v =
     (case py_index xs i of
        None \<Rightarrow> Inl IndexError
      | Some k \<Rightarrow> Inr (xs[k := v]))"

section \<open>bed-sample: reservoir sampling\<close>

text \<open>
  \<^verbatim>\<open>
  n = int(n)
  lines = []
  for i, line in enumerate(nopen(bed)):
      if i < n:
          lines.append(line)
      else:
          replace_idx = randint(0, i)
          if replace_idx < n:
              lines[replace_idx] = line
  print "".join(lines),
  \<close>
  \<open>bed_sample_loop\<close> is the loop over the lines of the file, with the line
  index \<open>i\<close>, the number \<open>c\<close> of random draws made so far and the buffer
  \<open>lines\<close>; \<open>bed_sample_lines\<close> runs it from the empty buffer.

  The lines are the raw lines the file iterator yields: each keeps its
  terminator, and the last line of a file that does not end in a newline has
  none (\<open>py_lines\<close>). The command prints the buffer joined without separator;
  the trailing comma of the \<open>print\<close> statement suppresses the newline that
  \<open>print\<close> would add. \<open>bed_sample\<close> takes the text of the file and returns
  the text the statement writes.
\<close>

fun bed_sample_loop ::
  "tape \<Rightarrow> int \<Rightarrow> nat \<Rightarrow> nat \<Rightarrow> 'a list \<Rightarrow> 'a list \<Rightarrow> error + 'a list" where
  "bed_sample_loop tape n i c [] lines = Inr lines"
| "bed_sample_loop tape n i c (line # rest) lines =
     (if int i < n then bed_sample_loop tape n (Suc i) c rest (lines @ [line])
      else
        (let replace_idx = randint tape c 0 (int i) in
         if replace_idx < n then
           (case py_setitem lines replace_idx line of
              Inl e \<Rightarrow> Inl e
            | Inr lines' \<Rightarrow> bed_sample_loop tape n (Suc i) (Suc c) rest lines')
         else bed_sample_loop tape n (Suc i) (Suc c) rest lines))"

definition bed_sample_lines :: "tape \<Rightarrow> int \<Rightarrow> 'a list \<Rightarrow> error + 'a list" where
  "bed_sample_lines tape n bed = bed_sample_loop tape n 0 0 bed []"

definition newline :: char where
  "newline = CHR 0x0A"

fun py_lines :: "string \<Rightarrow> string list" where
  "py_lines [] = []"
| "py_lines (ch # cs) =
     (if ch = newline then [ch] # py_lines cs
      else (case py_lines cs of
              [] \<Rightarrow> [[ch]]
            | l # ls \<Rightarrow> (ch # l) # ls))"

definition bed_sample :: "tape \<Rightarrow> int \<Rightarrow> string \<Rightarrow> error + string" where
  "bed_sample tape n bed =
     (case bed_sample_lines tape n (py_lines bed) of
        Inl e \<Rightarrow> Inl e
      | Inr lines \<Rightarrow> Inr (concat lines))"

text \<open>
  A line is terminated when it ends in a newline; the lines of a file have no
  newline before their last character.
\<close>

definition terminated :: "string \<Rightarrow> bool" where
  "terminated l \<longleftrightarrow> l \<noteq> [] \<and> last l = newline"

definition is_line :: "string \<Rightarrow> bool" where
  "is_line l \<longleftrightarrow> l \<noteq> [] \<and> newline \<notin> set (butlast l)"

text \<open>A tape used for concrete runs: every cell is 0.\<close>

definition zero_tape :: tape where
  "zero_tape c = 0"

text \<open>A tape whose first cell is 1 and whose other cells are 2.\<close>

definition demo_tape :: tape where
  "demo_tape c = (if c = 0 then 1 else 2)"

section \<open>Text fields and integers\<close>

text \<open>
  Every command reads its input line by line as
  \<open>l.rstrip("\r\n").split("\t")\<close>. A row is the resulting list of fields
  \<open>toks\<close>; an interval file is the list of its rows, in file order. A row is
  written back as \<open>"\t".join(toks)\<close>.
\<close>

type_synonym row = "string list"

text \<open>Reading \<open>xs[i]\<close>, at the position of the subscript.\<close>

definition py_getitem :: "'a list \<Rightarrow> int \<Rightarrow> error + 'a" where
  "py_getitem xs i =
     (case py_index xs i of
        None \<Rightarrow> Inl IndexError
      | Some k \<Rightarrow> Inr (xs ! k))"

text \<open>
  \<open>int(s)\<close> on the decimal literals: an optional sign and at least one digit.
  Any other text is a ValueError in this model (\<open>None\<close>). \<open>str(i)\<close> prints
  the decimal literal of an integer.
\<close>

definition digit_val :: "char \<Rightarrow> nat option" where
  "digit_val ch =
     (let k = (of_char ch :: nat) in if 48 \<le> k \<and> k \<le> 57 then Some (k - 48) else None)"

definition digit_char :: "nat \<Rightarrow> char" where
  "digit_char d = char_of (48 + d)"

fun nat_of_digits :: "nat \<Rightarrow> string \<Rightarrow> nat option" where
  "nat_of_digits acc [] = Some acc"
| "nat_of_digits acc (ch # cs) =
     (case digit_val ch of
        None \<Rightarrow> None
      | Some d \<Rightarrow> nat_of_digits (10 * acc + d) cs)"

definition py_int :: "string \<Rightarrow> int option" where
  "py_int s =
     (case s of
        [] \<Rightarrow> None
      | ch # cs \<Rightarrow>
          if ch = CHR ''-'' then
            (if cs = [] then None else map_option (\<lambda>m. - int m) (nat_of_digits 0 cs))
          else if ch = CHR ''+'' then
            (if cs = [] then None else map_option int (nat_of_digits 0 cs))
          else map_option int (nat_of_digits 0 (ch # cs)))"

fun str_nat :: "nat \<Rightarrow> string" where
  "str_nat m = (if m < 10 then [digit_char m] else str_nat (m div 10) @ [digit_char (m mod 10)])"

declare str_nat.simps [simp del]

definition py_str :: "int \<Rightarrow> string" where
  "py_str i = (if i < 0 then CHR ''-'' # str_nat (nat (- i)) else str_nat (nat i))"

text \<open>
  The start and the end of a row are fields 1 and 2 read as integers; they exist
  when the row has the field and the field is a decimal literal.
\<close>

definition start_of :: "row \<Rightarrow> int option" where
  "start_of toks = (if 1 < length toks then py_int (toks ! 1) else None)"

definition end_of :: "row \<Rightarrow> int option" where
  "end_of toks = (if 2 < length toks then py_int (toks ! 2) else None)"

definition well_formed :: "row \<Rightarrow> bool" where
  "well_formed toks \<longleftrightarrow> start_of toks \<noteq> None \<and> end_of toks \<noteq> None"

text \<open>
  Two rows agree outside start and end: same number of fields, same field 0
  (the chromosome) and same fields from 3 on.
\<close>

definition same_fields :: "row \<Rightarrow> row \<Rightarrow> bool" where
  "same_fields toks toks' \<longleftrightarrow>
     length toks' = length toks \<and> take 1 toks' = take 1 toks \<and> drop 3 toks' = drop 3 toks"

section \<open>extend_bed\<close>

text \<open>
  \<^verbatim>\<open>
  def extend_bed(fin, fout, bases):
      bases /= 2
      with nopen(fout, 'w') as fh:
          for toks in (l.rstrip("\r\n").split("\t") for l in nopen(fin)):
              toks[1] = max(0, int(toks[1]) - bases)
              toks[2] = max(0, int(toks[2]) + bases)
              if toks[1] > toks[2]: # negative distances
                  toks[1] = toks[2] = (toks[1] + toks[2]) / 2
              assert toks[1] <= toks[2]
              print >>fh, "\t".join(map(str, toks))
      return fh.name
  \<close>
  The program is Python 2: \<open>/\<close> on two integers is floor division, which is
  \<open>div\<close> on \<open>int\<close>. \<open>extend_interval\<close> is the arithmetic of one loop body on
  the two integers read from the row; \<open>extend_toks\<close> reads them in the order of
  the source, and writes the row with \<open>str\<close> applied to the two new integers.
\<close>

definition extend_interval :: "int \<Rightarrow> int \<Rightarrow> int \<Rightarrow> error + (int \<times> int)" where
  "extend_interval bases s e =
     (let t1 = max 0 (s - bases);
          t2 = max 0 (e + bases);
          m = (t1 + t2) div 2;
          t1' = (if t1 > t2 then m else t1);
          t2' = (if t1 > t2 then m else t2)
      in if t1' \<le> t2' then Inr (t1', t2') else Inl AssertionError)"

definition extend_toks :: "int \<Rightarrow> row \<Rightarrow> error + row" where
  "extend_toks bases toks =
     (case py_getitem toks 1 of
        Inl x \<Rightarrow> Inl x
      | Inr f1 \<Rightarrow>
          (case py_int f1 of
             None \<Rightarrow> Inl ValueError
           | Some s \<Rightarrow>
               (case py_getitem toks 2 of
                  Inl x \<Rightarrow> Inl x
                | Inr f2 \<Rightarrow>
                    (case py_int f2 of
                       None \<Rightarrow> Inl ValueError
                     | Some e \<Rightarrow>
                         (case extend_interval bases s e of
                            Inl x \<Rightarrow> Inl x
                          | Inr (t1, t2) \<Rightarrow>
                              Inr (toks[1 := py_str t1, 2 := py_str t2]))))))"

fun extend_bed_loop :: "int \<Rightarrow> row list \<Rightarrow> error + row list" where
  "extend_bed_loop bases [] = Inr []"
| "extend_bed_loop bases (toks # rest) =
     (case extend_toks bases toks of
        Inl x \<Rightarrow> Inl x
      | Inr toks' \<Rightarrow>
          (case extend_bed_loop bases rest of
             Inl x \<Rightarrow> Inl x
           | Inr out \<Rightarrow> Inr (toks' # out)))"

definition extend_bed :: "row list \<Rightarrow> int \<Rightarrow> error + row list" where
  "extend_bed fin bases = extend_bed_loop (bases div 2) fin"

section \<open>distance-shuffle\<close>

text \<open>
  \<^verbatim>\<open>
  dist = abs(int(dist))
  for toks in (l.rstrip('\r\n').split('\t') for l in nopen(bed)):
      d = randint(-dist, dist)
      toks[1:3] = [str(max(0, int(loc) + d)) for loc in toks[1:3]]
      print "\t".join(toks)
  \<close>
  The slice \<open>toks[1:3]\<close> holds the fields 1 and 2 that the row has (it is shorter
  on a row of fewer than three fields), and the slice assignment puts the new
  fields in their place. One draw is made per row, before the row is read.
  The parameter \<open>dist\<close> of the source is written \<open>dist'\<close>.
\<close>

definition shuffle_toks :: "int \<Rightarrow> row \<Rightarrow> error + row" where
  "shuffle_toks d toks =
     (case those (map py_int (take 2 (drop 1 toks))) of
        None \<Rightarrow> Inl ValueError
      | Some locs \<Rightarrow>
          Inr (take 1 toks @ map (\<lambda>loc. py_str (max 0 (loc + d))) locs @ drop 3 toks))"

fun distance_shuffle_loop :: "tape \<Rightarrow> int \<Rightarrow> nat \<Rightarrow> row list \<Rightarrow> error + row list" where
  "distance_shuffle_loop tape dist' c [] = Inr []"
| "distance_shuffle_loop tape dist' c (toks # rest) =
     (let d = randint tape c (- dist') dist' in
      case shuffle_toks d toks of
        Inl x \<Rightarrow> Inl x
      | Inr toks' \<Rightarrow>
          (case distance_shuffle_loop tape dist' (Suc c) rest of
             Inl x \<Rightarrow> Inl x
           | Inr out \<Rightarrow> Inr (toks' # out)))"

definition distance_shuffle :: "tape \<Rightarrow> row list \<Rightarrow> int \<Rightarrow> error + row list" where
  "distance_shuffle tape bed dist' = distance_shuffle_loop tape (abs dist') 0 bed"

text \<open>The width of a row, when it has a start and an end.\<close>

definition width_of :: "row \<Rightarrow> int option" where
  "width_of toks =
     (case start_of toks of
        None \<Rightarrow> None
      | Some s \<Rightarrow> (case end_of toks of None \<Rightarrow> None | Some e \<Rightarrow> Some (e - s)))"

section \<open>The external overlap tool and the summary of a test\<close>

text \<open>
  \<open>bedtools intersect\<close> is an external program. The code uses it with \<open>-v\<close>
  (rows of the first file overlapping no row of the second) and with \<open>-u\<close> (rows
  of the first file overlapping some row of the second); both are parameters of
  the model. \<open>... | wc -l\<close> is the number of rows printed.
\<close>

record bedtools =
  intersect_v :: "row list \<Rightarrow> row list \<Rightarrow> row list"
  intersect_u :: "row list \<Rightarrow> row list \<Rightarrow> row list"

text \<open>
  Python's \<open>x / y\<close> with a float operand raises ZeroDivisionError when \<open>y\<close> is
  zero. Floats are modelled by the real numbers they approximate.
\<close>

definition py_truediv :: "real \<Rightarrow> real \<Rightarrow> error + real" where
  "py_truediv x y = (if y = 0 then Inl ZeroDivisionError else Inr (x / y))"

text \<open>
  The last lines of \<open>poverlap\<close> and of \<open>fixle\<close> are the same:
  \<^verbatim>\<open>
  print "> simulated overlap mean: %.1f" % (sum(sims) / float(len(sims)))
  print "> simulated p-value: %.3g" % (sum((s >= observed) for s in sims) / float(len(sims)))
  print ">", sims
  \<close>
  The report holds the values that are printed, before formatting.
\<close>

record report =
  r_observed :: int
  r_mean :: real
  r_pvalue :: real
  r_sims :: "int list"

definition summarize :: "int \<Rightarrow> int list \<Rightarrow> error + report" where
  "summarize obs sims =
     (case py_truediv (of_int (sum_list sims)) (of_nat (length sims)) of
        Inl x \<Rightarrow> Inl x
      | Inr m \<Rightarrow>
          (case py_truediv (of_int (sum_list (map (\<lambda>s. if s \<ge> obs then 1 else 0) sims)))
                           (of_nat (length sims)) of
             Inl x \<Rightarrow> Inl x
           | Inr p \<Rightarrow> Inr \<lparr>r_observed = obs, r_mean = m, r_pvalue = p, r_sims = sims\<rparr>))"

section \<open>zclude\<close>

text \<open>
  \<^verbatim>\<open>
  def zclude(bed, other, exclude=True):
      if other is None: return bed
      n_orig = sum(1 for _ in nopen(bed))
      tmp = mktemp()
      if exclude:
          run("bedtools intersect -v -a {bed} -b {other} > {tmp}; echo 1"...)
      else:
          run("bedtools intersect -u -a {bed} -b {other} > {tmp}; echo 1"...)
      n_after = sum(1 for _ in nopen(tmp))
      clude = "exclud" if exclude else "includ"
      pct = 100 * float(n_orig - n_after) / n_orig
      print >>sys.stderr, ("reduced {bed} from {n_orig} to {n_after} "
               "{pct:.3f}% by {clude}ing {other}").format(**locals())
      return tmp
  \<close>
  The result is the returned file together with the diagnostics written to
  standard error (the values put into the message).
\<close>

record diagnostic =
  d_orig :: nat
  d_after :: nat
  d_pct :: real
  d_clude :: string

definition zclude ::
  "bedtools \<Rightarrow> row list \<Rightarrow> row list option \<Rightarrow> bool \<Rightarrow> error + (row list \<times> diagnostic list)" where
  "zclude bt bed other exclude =
     (case other of
        None \<Rightarrow> Inr (bed, [])
      | Some other' \<Rightarrow>
          (let n_orig = length bed;
               tmp = (if exclude then intersect_v bt bed other' else intersect_u bt bed other');
               n_after = length tmp;
               clude = (if exclude then ''exclud'' else ''includ'')
           in case py_truediv (100 * of_int (int n_orig - int n_after)) (of_nat n_orig) of
                Inl x \<Rightarrow> Inl x
              | Inr pct \<Rightarrow>
                  Inr (tmp, [\<lparr>d_orig = n_orig, d_after = n_after, d_pct = pct, d_clude = clude\<rparr>])))"

section \<open>poverlap\<close>

text \<open>
  \<^verbatim>\<open>
  a = zclude(zclude(a, exclude, True), include, False)
  b = zclude(zclude(b, exclude, True), include, False)
  ...
  if overlap_distance != 0:
      a = extend_bed(a, mktemp(), overlap_distance)
      b = extend_bed(b, mktemp(), overlap_distance)
  orig_cmd = "bedtools intersect -u -a {a} -b {b} | wc -l".format(**locals())
  ...
  observed = int(run(orig_cmd))
  sims = [int(x) for x in pool.imap(run, [shuf_cmd] * n)]
  \<close>
  The model starts after the argument handling of lines 169 to 173. The shuffle
  command is a shell pipeline (\<open>bedtools shuffle\<close> or the \<open>distance-shuffle\<close>
  command in a subprocess, then \<open>bedtools intersect -u\<close> and \<open>wc -l\<close>) run
  \<open>n\<close> times by the pool; \<open>shuf_count a b i\<close> is the count printed by run \<open>i\<close>
  on the files \<open>a\<close> and \<open>b\<close>. \<open>[shuf_cmd] * n\<close> is empty for \<open>n \<le> 0\<close>.
\<close>

definition limit_regions ::
  "bedtools \<Rightarrow> row list \<Rightarrow> row list option \<Rightarrow> row list option \<Rightarrow> error + row list" where
  "limit_regions bt bed exclude include =
     (case zclude bt bed exclude True of
        Inl x \<Rightarrow> Inl x
      | Inr (bed1, msgs1) \<Rightarrow>
          (case zclude bt bed1 include False of
             Inl x \<Rightarrow> Inl x
           | Inr (bed2, msgs2) \<Rightarrow> Inr bed2))"

definition run_trials :: "(nat \<Rightarrow> int) \<Rightarrow> int \<Rightarrow> int list" where
  "run_trials shuf n = map shuf [0..<nat n]"

definition poverlap ::
  "bedtools \<Rightarrow> (row list \<Rightarrow> row list \<Rightarrow> nat \<Rightarrow> int) \<Rightarrow> row list \<Rightarrow> row list \<Rightarrow> int
     \<Rightarrow> row list option \<Rightarrow> row list option \<Rightarrow> int \<Rightarrow> error + report" where
  "poverlap bt shuf_count a b n exclude include overlap_distance =
     (case limit_regions bt a exclude include of
        Inl x \<Rightarrow> Inl x
      | Inr a1 \<Rightarrow>
          (case limit_regions bt b exclude include of
             Inl x \<Rightarrow> Inl x
           | Inr b1 \<Rightarrow>
               (case (if overlap_distance \<noteq> 0 then extend_bed a1 overlap_distance else Inr a1) of
                  Inl x \<Rightarrow> Inl x
                | Inr a2 \<Rightarrow>
                    (case (if overlap_distance \<noteq> 0 then extend_bed b1 overlap_distance
                           else Inr b1) of
                       Inl x \<Rightarrow> Inl x
                     | Inr b2 \<Rightarrow>
                         summarize (int (length (intersect_u bt a2 b2)))
                                   (run_trials (shuf_count a2 b2) n)))))"

section \<open>fixle\<close>

text \<open>
  \<^verbatim>\<open>
  type_col -= 1
  n_btypes = 0
  ...
      for toks in (l.rstrip("\r\n").split("\t") for l in nopen(bed)):
          if toks[type_col] == atype:
              print >> afh, "\t".join(toks)
          else:
              print >> ofh, "\t".join(toks)
              if toks[type_col] == btype:
                  print >>bfh, "\t".join(toks)
                  n_btypes += 1
  assert n_btypes > 0, ("no intervals found for", btype)
  \<close>
  The three files written by the loop and the counter are the state of the loop.
\<close>

record fixle_state =
  afh :: "row list"
  ofh :: "row list"
  bfh :: "row list"
  n_btypes :: nat

fun fixle_loop :: "int \<Rightarrow> string \<Rightarrow> string \<Rightarrow> row list \<Rightarrow> fixle_state \<Rightarrow> error + fixle_state" where
  "fixle_loop type_col atype btype [] st = Inr st"
| "fixle_loop type_col atype btype (toks # rest) st =
     (case py_getitem toks type_col of
        Inl x \<Rightarrow> Inl x
      | Inr t \<Rightarrow>
          if t = atype then
            fixle_loop type_col atype btype rest (st\<lparr>afh := afh st @ [toks]\<rparr>)
          else if t = btype then
            fixle_loop type_col atype btype rest
              (st\<lparr>ofh := ofh st @ [toks], bfh := bfh st @ [toks], n_btypes := n_btypes st + 1\<rparr>)
          else
            fixle_loop type_col atype btype rest (st\<lparr>ofh := ofh st @ [toks]\<rparr>))"

definition fixle_files :: "row list \<Rightarrow> string \<Rightarrow> string \<Rightarrow> int \<Rightarrow> error + fixle_state" where
  "fixle_files bed atype btype type_col =
     (case fixle_loop (type_col - 1) atype btype bed
             \<lparr>afh = [], ofh = [], bfh = [], n_btypes = 0\<rparr> of
        Inl x \<Rightarrow> Inl x
      | Inr st \<Rightarrow> if n_btypes st > 0 then Inr st else Inl AssertionError)"

text \<open>
  \<^verbatim>\<open>
  a, b, other = afh.name, bfh.name, ofh.name
  orig_cmd = "bedtools intersect -u -a {a} -b {b} | wc -l".format(**locals())
  observed = int(run(orig_cmd))
  bsample = '<(python {script} bed-sample {other} --n {n_btypes})'.format(**locals())
  shuf_cmd = "bedtools intersect -u -a {a} -b {bsample} | wc -l".format(**locals())
  sims = [int(x) for x in pool.imap(run, [shuf_cmd] * n)]
  \<close>
  Every run of the shuffle command starts \<open>bed-sample\<close> in a process of its own,
  with a random source of its own: \<open>tapes i\<close> in run \<open>i\<close>. A \<open>bed-sample\<close> that
  raised would have printed nothing. The pool file was written with \<open>print\<close>,
  one terminated line per row (\<open>print_row\<close>), so the sample is taken on the rows.
\<close>

fun join_tab :: "row \<Rightarrow> string" where
  "join_tab [] = []"
| "join_tab [f] = f"
| "join_tab (f # g # fs) = f @ CHR 0x09 # join_tab (g # fs)"

definition print_row :: "row \<Rightarrow> string" where
  "print_row toks = join_tab toks @ [newline]"

definition fixle_sample :: "tape \<Rightarrow> fixle_state \<Rightarrow> row list" where
  "fixle_sample tape st =
     (case bed_sample_lines tape (int (n_btypes st)) (ofh st) of
        Inl x \<Rightarrow> []
      | Inr lines \<Rightarrow> lines)"

definition fixle ::
  "bedtools \<Rightarrow> (nat \<Rightarrow> tape) \<Rightarrow> row list \<Rightarrow> string \<Rightarrow> string \<Rightarrow> int \<Rightarrow> int \<Rightarrow> error + report" where
  "fixle bt tapes bed atype btype type_col n =
     (case fixle_files bed atype btype type_col of
        Inl x \<Rightarrow> Inl x
      | Inr st \<Rightarrow>
          summarize (int (length (intersect_u bt (afh st) (bfh st))))
            (run_trials (\<lambda>i. int (length (intersect_u bt (afh st) (fixle_sample (tapes i) st)))) n))"

text \<open>The type of a row: the field in the type column, when the row has it.\<close>

definition row_type :: "int \<Rightarrow> row \<Rightarrow> string option" where
  "row_type type_col toks =
     (case py_getitem toks (type_col - 1) of Inl x \<Rightarrow> None | Inr t \<Rightarrow> Some t)"

text \<open>Trial counts used for concrete runs.\<close>

definition zero_runs :: "nat \<Rightarrow> int" where
  "zero_runs i = 0"

definition no_overlap :: bedtools where
  "no_overlap = \<lparr>intersect_v = (\<lambda>a b. a), intersect_u = (\<lambda>a b. [])\<rparr>"

text \<open>
  A labelled file with three rows of type Pol2, five of type CTCF and two others,
  the type in column 4.
\<close>

definition scenario_bed :: "row list" where
  "scenario_bed =
     [[''chr1'', ''100'', ''200'', ''Pol2''],
      [''chr1'', ''300'', ''400'', ''CTCF''],
      [''chr1'', ''500'', ''600'', ''CTCF''],
      [''chr1'', ''700'', ''800'', ''H3K4''],
      [''chr2'', ''100'', ''200'', ''Pol2''],
      [''chr2'', ''300'', ''400'', ''CTCF''],
      [''chr2'', ''500'', ''600'', ''CTCF''],
      [''chr2'', ''700'', ''800'', ''Pol2''],
      [''chr3'', ''100'', ''200'', ''CTCF''],
      [''chr3'', ''300'', ''400'', ''p300'']]"

text \<open>
  Two texts used for concrete runs: five terminated lines, and three lines of
  which the last has no terminator.
\<close>

definition demo_text :: string where
  "demo_text = ''a'' @ [newline] @ ''b'' @ [newline] @ ''c'' @ [newline]
               @ ''d'' @ [newline] @ ''e'' @ [newline]"


section \<open>Properties of the random source\<close>

lemma randint_range:
  assumes "lo \<le> hi"
  shows "lo \<le> randint tape c lo hi \<and> randint tape c lo hi \<le> hi"
proof -
  have pos: "0 < nat (hi - lo + 1)" using assms by simp
  have "tape c mod nat (hi - lo + 1) < nat (hi - lo + 1)"
    using pos by (rule mod_less_divisor)
  then have "int (tape c mod nat (hi - lo + 1)) < hi - lo + 1"
    using assms by linarith
  then show ?thesis by (simp add: randint_def)
qed

section \<open>Properties of the text fields\<close>

lemma digit_val_digit_char: "d < 10 \<Longrightarrow> digit_val (digit_char d) = Some d"
  by (simp add: digit_val_def digit_char_def Let_def)

lemma nat_of_digits_snoc:
  "nat_of_digits acc (cs @ [ch]) =
     (case nat_of_digits acc cs of
        None \<Rightarrow> None
      | Some m \<Rightarrow> (case digit_val ch of None \<Rightarrow> None | Some d \<Rightarrow> Some (10 * m + d)))"
  by (induction cs arbitrary: acc) (auto split: option.splits)

lemma nat_of_digits_str_nat: "nat_of_digits 0 (str_nat m) = Some m"
proof (induction m rule: str_nat.induct)
  case (1 m)
  show ?case
  proof (cases "m < 10")
    case True
    then show ?thesis
      by (subst str_nat.simps) (simp add: digit_val_digit_char)
  next
    case False
    have "m mod 10 < 10" by simp
    then have dv: "digit_val (digit_char (m mod 10)) = Some (m mod 10)"
      by (rule digit_val_digit_char)
    have "str_nat m = str_nat (m div 10) @ [digit_char (m mod 10)]"
      using False by (subst str_nat.simps) simp
    then show ?thesis
      using 1 [OF False] dv by (simp add: nat_of_digits_snoc)
  qed
qed

lemma digit_val_sign: "digit_val (CHR ''-'') = None" "digit_val (CHR ''+'') = None"
  by (simp_all add: digit_val_def)

lemma str_nat_not_Nil: "str_nat m \<noteq> []"
  by (subst str_nat.simps) simp

lemma py_int_str_nat: "py_int (str_nat m) = Some (int m)"
proof (cases "str_nat m")
  case Nil
  then show ?thesis using str_nat_not_Nil [of m] by simp
next
  case (Cons ch cs)
  have p: "nat_of_digits 0 (ch # cs) = Some m"
    using nat_of_digits_str_nat [of m] Cons by simp
  then have "digit_val ch \<noteq> None" by (auto split: option.splits)
  then have "ch \<noteq> CHR ''-''" "ch \<noteq> CHR ''+''" using digit_val_sign by auto
  then show ?thesis using p Cons by (simp add: py_int_def)
qed

lemma py_int_py_str: "py_int (py_str i) = Some i"
proof (cases "i < 0")
  case True
  then show ?thesis
    by (simp add: py_str_def py_int_def str_nat_not_Nil nat_of_digits_str_nat)
next
  case False
  then show ?thesis by (simp add: py_str_def py_int_str_nat)
qed

lemma well_formed_cases:
  assumes "well_formed toks"
  obtains f0 f1 f2 aux s e where
    "toks = f0 # f1 # f2 # aux" "py_int f1 = Some s" "py_int f2 = Some e"
proof -
  from assms have len: "2 < length toks"
    by (auto simp: well_formed_def end_of_def split: if_splits)
  then obtain f0 f1 f2 aux where t: "toks = f0 # f1 # f2 # aux"
    by (cases toks; cases "tl toks"; cases "tl (tl toks)") auto
  with assms obtain s e where "py_int f1 = Some s" "py_int f2 = Some e"
    by (auto simp: well_formed_def start_of_def end_of_def)
  with t that show thesis by blast
qed

lemma start_end_Cons [simp]:
  "start_of (f0 # f1 # aux) = py_int f1"
  "end_of (f0 # f1 # f2 # aux) = py_int f2"
  by (simp_all add: start_of_def end_of_def)

section \<open>Properties of extend_bed\<close>

lemma extend_interval_unfold:
  "(let t1 = (x::int); t2 = y; m = (t1 + t2) div 2;
        t1' = (if t1 > t2 then m else t1);
        t2' = (if t1 > t2 then m else t2)
    in if t1' \<le> t2' then Inr (t1', t2') else Inl AssertionError)
   = Inr (if x > y then (x + y) div 2 else x, if x > y then (x + y) div 2 else y)"
  by (simp add: Let_def)

lemma extend_interval_value:
  "extend_interval h s e =
     Inr (if max 0 (s - h) > max 0 (e + h) then (max 0 (s - h) + max 0 (e + h)) div 2
          else max 0 (s - h),
          if max 0 (s - h) > max 0 (e + h) then (max 0 (s - h) + max 0 (e + h)) div 2
          else max 0 (e + h))"
  unfolding extend_interval_def by (rule extend_interval_unfold)

lemma extend_interval_ok:
  "\<exists>a b. extend_interval h s e = Inr (a, b) \<and> 0 \<le> a \<and> a \<le> b"
proof -
  define x where "x = max 0 (s - h)"
  define y where "y = max 0 (e + h)"
  have nn: "0 \<le> x" "0 \<le> y" by (simp_all add: x_def y_def)
  have v: "extend_interval h s e
             = Inr (if x > y then (x + y) div 2 else x, if x > y then (x + y) div 2 else y)"
    unfolding x_def y_def by (rule extend_interval_value)
  show ?thesis
  proof (cases "x > y")
    case True
    have "0 \<le> (x + y) div 2" using nn by simp
    then show ?thesis using v True by simp
  next
    case False
    then show ?thesis using v nn by simp
  qed
qed

lemma extend_toks_Inr:
  assumes "extend_toks h toks = Inr toks'"
  shows "\<exists>s e a b. start_of toks = Some s \<and> end_of toks = Some e
           \<and> extend_interval h s e = Inr (a, b)
           \<and> toks' = toks[1 := py_str a, 2 := py_str b]"
proof -
  from assms obtain f1 s f2 e a b where
    g1: "py_getitem toks 1 = Inr f1" and s: "py_int f1 = Some s" and
    g2: "py_getitem toks 2 = Inr f2" and e: "py_int f2 = Some e" and
    ei: "extend_interval h s e = Inr (a, b)" and
    t': "toks' = toks[1 := py_str a, 2 := py_str b]"
    by (auto simp: extend_toks_def split: sum.splits option.splits)
  from g1 have "1 < length toks" "f1 = toks ! 1"
    by (auto simp: py_getitem_def py_index_def split: if_splits)
  moreover from g2 have "2 < length toks" "f2 = toks ! 2"
    by (auto simp: py_getitem_def py_index_def split: if_splits)
  ultimately have "start_of toks = Some s" "end_of toks = Some e"
    using s e by (simp_all add: start_of_def end_of_def)
  with ei t' show ?thesis by blast
qed

lemma extend_toks_well_formed:
  assumes "start_of toks = Some s" "end_of toks = Some e"
  shows "\<exists>a b. extend_interval h s e = Inr (a, b)
           \<and> extend_toks h toks = Inr (toks[1 := py_str a, 2 := py_str b])"
proof -
  from assms have len: "1 < length toks" "2 < length toks"
    and p: "py_int (toks ! 1) = Some s" "py_int (toks ! 2) = Some e"
    by (auto simp: start_of_def end_of_def split: if_splits)
  obtain a b where ei: "extend_interval h s e = Inr (a, b)"
    using extend_interval_ok [of h s e] by blast
  have "py_getitem toks 1 = Inr (toks ! 1)" "py_getitem toks 2 = Inr (toks ! 2)"
    using len by (simp_all add: py_getitem_def py_index_def)
  then have "extend_toks h toks = Inr (toks[1 := py_str a, 2 := py_str b])"
    using p ei by (simp add: extend_toks_def)
  with ei show ?thesis by blast
qed

lemma updated_row:
  assumes "2 < length toks"
  shows "start_of (toks[1 := py_str a, 2 := py_str b]) = Some a"
    and "end_of (toks[1 := py_str a, 2 := py_str b]) = Some b"
    and "same_fields toks (toks[1 := py_str a, 2 := py_str b])"
proof -
  obtain f0 f1 f2 aux where t: "toks = f0 # f1 # f2 # aux"
    using assms by (cases toks; cases "tl toks"; cases "tl (tl toks)") auto
  show "start_of (toks[1 := py_str a, 2 := py_str b]) = Some a"
    by (simp add: t py_int_py_str)
  show "end_of (toks[1 := py_str a, 2 := py_str b]) = Some b"
    by (simp add: t py_int_py_str)
  show "same_fields toks (toks[1 := py_str a, 2 := py_str b])"
    by (simp add: t same_fields_def)
qed

lemma extend_toks_no_assert: "extend_toks h toks \<noteq> Inl AssertionError"
proof
  assume a: "extend_toks h toks = Inl AssertionError"
  have "\<And>s e. extend_interval h s e \<noteq> Inl AssertionError"
    using extend_interval_ok by (metis Inl_Inr_False)
  moreover have "\<And>i. py_getitem toks i \<noteq> Inl AssertionError"
    by (simp add: py_getitem_def split: option.splits)
  ultimately show False using a
    by (auto simp: extend_toks_def split: sum.splits option.splits)
qed

lemma extend_bed_loop_no_assert: "extend_bed_loop h bed \<noteq> Inl AssertionError"
  by (induction bed) (auto simp: extend_toks_no_assert split: sum.splits)

lemma extend_bed_loop_Inr:
  "extend_bed_loop h bed = Inr out \<longleftrightarrow> list_all2 (\<lambda>toks toks'. extend_toks h toks = Inr toks') bed out"
proof (induction bed arbitrary: out)
  case Nil
  then show ?case by auto
next
  case (Cons toks rest)
  show ?case
    by (cases out) (auto simp: Cons [symmetric] split: sum.splits)
qed

lemma extend_toks_row:
  assumes "extend_toks h toks = Inr toks'"
  shows "same_fields toks toks'"
    and "\<exists>s e. start_of toks = Some s \<and> end_of toks = Some e
           \<and> start_of toks' =
               Some (if max 0 (s - h) > max 0 (e + h)
                     then (max 0 (s - h) + max 0 (e + h)) div 2 else max 0 (s - h))
           \<and> end_of toks' =
               Some (if max 0 (s - h) > max 0 (e + h)
                     then (max 0 (s - h) + max 0 (e + h)) div 2 else max 0 (e + h))"
    and "\<exists>a b. start_of toks' = Some a \<and> end_of toks' = Some b \<and> 0 \<le> a \<and> a \<le> b"
proof -
  from extend_toks_Inr [OF assms] obtain s e a b where
    se: "start_of toks = Some s" "end_of toks = Some e" and
    ei: "extend_interval h s e = Inr (a, b)" and
    t': "toks' = toks[1 := py_str a, 2 := py_str b]"
    by blast
  from se(2) have len: "2 < length toks"
    by (simp add: end_of_def split: if_splits)
  note u = updated_row [OF len, of a b, folded t']
  show "same_fields toks toks'" by (rule u(3))
  from ei have ab:
    "a = (if max 0 (s - h) > max 0 (e + h)
          then (max 0 (s - h) + max 0 (e + h)) div 2 else max 0 (s - h))"
    "b = (if max 0 (s - h) > max 0 (e + h)
          then (max 0 (s - h) + max 0 (e + h)) div 2 else max 0 (e + h))"
    by (simp_all add: extend_interval_value)
  show "\<exists>s e. start_of toks = Some s \<and> end_of toks = Some e
           \<and> start_of toks' =
               Some (if max 0 (s - h) > max 0 (e + h)
                     then (max 0 (s - h) + max 0 (e + h)) div 2 else max 0 (s - h))
           \<and> end_of toks' =
               Some (if max 0 (s - h) > max 0 (e + h)
                     then (max 0 (s - h) + max 0 (e + h)) div 2 else max 0 (e + h))"
    using se u(1,2) ab by simp
  from extend_interval_ok [of h s e] ei have "0 \<le> a" "a \<le> b" by auto
  then show "\<exists>a b. start_of toks' = Some a \<and> end_of toks' = Some b \<and> 0 \<le> a \<and> a \<le> b"
    using u(1,2) by blast
qed

lemma extend_bed_loop_total:
  "\<forall>toks\<in>set bed. well_formed toks \<Longrightarrow> \<exists>out. extend_bed_loop h bed = Inr out"
proof (induction bed)
  case Nil
  then show ?case by simp
next
  case (Cons toks rest)
  then obtain s e where "start_of toks = Some s" "end_of toks = Some e"
    by (auto simp: well_formed_def)
  from extend_toks_well_formed [OF this, of h] obtain toks' where
    "extend_toks h toks = Inr toks'" by blast
  moreover from Cons obtain out where "extend_bed_loop h rest = Inr out" by auto
  ultimately show ?case by simp
qed

section \<open>Properties of distance-shuffle\<close>

lemma shuffle_toks_same_fields:
  assumes "shuffle_toks d toks = Inr toks'"
  shows "same_fields toks toks'"
proof -
  consider "toks = []" | f0 where "toks = [f0]" | f0 f1 where "toks = [f0, f1]"
    | f0 f1 f2 aux where "toks = f0 # f1 # f2 # aux"
    by (cases toks; cases "tl toks"; cases "tl (tl toks)") auto
  then show ?thesis
  proof cases
    case 1
    with assms show ?thesis by (auto simp: shuffle_toks_def same_fields_def)
  next
    case 2
    with assms show ?thesis by (auto simp: shuffle_toks_def same_fields_def)
  next
    case 3
    with assms show ?thesis
      by (auto simp: shuffle_toks_def same_fields_def split: option.splits)
  next
    case 4
    with assms show ?thesis
      by (auto simp: shuffle_toks_def same_fields_def split: option.splits)
  qed
qed

lemma shuffle_toks_well_formed:
  assumes "start_of toks = Some s" "end_of toks = Some e"
  shows "\<exists>toks'. shuffle_toks d toks = Inr toks'
           \<and> start_of toks' = Some (max 0 (s + d)) \<and> end_of toks' = Some (max 0 (e + d))"
proof -
  have "well_formed toks" using assms by (simp add: well_formed_def)
  then obtain f0 f1 f2 aux s' e' where
    t: "toks = f0 # f1 # f2 # aux" and p: "py_int f1 = Some s'" "py_int f2 = Some e'"
    by (rule well_formed_cases)
  from assms t p have "s' = s" "e' = e" by simp_all
  with t p show ?thesis by (simp add: shuffle_toks_def py_int_py_str)
qed

lemma distance_shuffle_loop_Inr:
  "distance_shuffle_loop tape dd c bed = Inr out \<longleftrightarrow>
     length out = length bed \<and>
     (\<forall>j<length bed. shuffle_toks (randint tape (c + j) (- dd) dd) (bed ! j) = Inr (out ! j))"
proof (induction bed arbitrary: c out)
  case Nil
  then show ?case by auto
next
  case (Cons toks rest)
  show ?case
  proof (cases out)
    case Nil
    then show ?thesis by (auto simp: Let_def split: sum.splits)
  next
    case (Cons toks' out')
    have "distance_shuffle_loop tape dd c (toks # rest) = Inr (toks' # out') \<longleftrightarrow>
            shuffle_toks (randint tape c (- dd) dd) toks = Inr toks'
            \<and> distance_shuffle_loop tape dd (Suc c) rest = Inr out'"
      by (auto simp: Let_def split: sum.splits)
    also have "\<dots> \<longleftrightarrow> shuffle_toks (randint tape c (- dd) dd) toks = Inr toks'
            \<and> length out' = length rest
            \<and> (\<forall>j<length rest.
                  shuffle_toks (randint tape (Suc c + j) (- dd) dd) (rest ! j) = Inr (out' ! j))"
      by (simp add: Cons.IH)
    also have "\<dots> \<longleftrightarrow> length (toks' # out') = length (toks # rest)
            \<and> (\<forall>j<length (toks # rest).
                  shuffle_toks (randint tape (c + j) (- dd) dd) ((toks # rest) ! j)
                    = Inr ((toks' # out') ! j))"
      by (auto simp: less_Suc_eq_0_disj)
    finally show ?thesis using Cons by simp
  qed
qed

lemma distance_shuffle_loop_total:
  "\<forall>toks\<in>set bed. well_formed toks \<Longrightarrow> \<exists>out. distance_shuffle_loop tape dd c bed = Inr out"
proof (induction bed arbitrary: c)
  case Nil
  then show ?case by simp
next
  case (Cons toks rest)
  then obtain s e where "start_of toks = Some s" "end_of toks = Some e"
    by (auto simp: well_formed_def)
  from shuffle_toks_well_formed [OF this, of "randint tape c (- dd) dd"] obtain toks' where
    "shuffle_toks (randint tape c (- dd) dd) toks = Inr toks'" by blast
  moreover from Cons obtain out where "distance_shuffle_loop tape dd (Suc c) rest = Inr out"
    by auto
  ultimately show ?case by (simp add: Let_def)
qed

section \<open>Properties of bed-sample\<close>

lemma bed_sample_loop_nonpositive:
  "n \<le> 0 \<Longrightarrow> bed_sample_loop tape n i c rest lines = Inr lines"
proof (induction rest arbitrary: i c)
  case Nil
  then show ?case by simp
next
  case (Cons line rest)
  have "0 \<le> randint tape c 0 (int i)"
    using randint_range [of 0 "int i" tape c] by simp
  with Cons show ?case by (simp add: Let_def)
qed


lemma py_setitem_map:
  "py_setitem (map f xs) i (f v) = map_sum id (map f) (py_setitem xs i v)"
  by (simp add: py_setitem_def py_index_def map_update)

lemma bed_sample_loop_map:
  "bed_sample_loop tape n i c (map f rest) (map f lines)
     = map_sum id (map f) (bed_sample_loop tape n i c rest lines)"
proof (induction rest arbitrary: i c lines)
  case Nil
  then show ?case by simp
next
  case (Cons line rest)
  have app: "map f lines @ [f line] = map f (lines @ [line])" by simp
  show ?case
  proof (cases "int i < n")
    case True
    then show ?thesis using Cons [of "Suc i" c "lines @ [line]"] by (simp del: map_append add: app)
  next
    case False
    show ?thesis
    proof (cases "py_setitem lines (randint tape c 0 (int i)) line")
      case (Inl e)
      then show ?thesis using False Cons [of "Suc i" "Suc c" lines]
        by (simp add: Let_def py_setitem_map)
    next
      case (Inr lines')
      then show ?thesis
        using False Cons [of "Suc i" "Suc c" lines] Cons [of "Suc i" "Suc c" lines']
        by (simp add: Let_def py_setitem_map)
    qed
  qed
qed

lemma py_setitem_distinct:
  assumes "py_setitem xs i v = Inr ys" "distinct xs" "v \<notin> set xs"
  shows "distinct ys \<and> set ys \<subseteq> insert v (set xs) \<and> length ys = length xs"
proof -
  obtain j where ys: "ys = xs[j := v]"
    using assms(1) by (auto simp: py_setitem_def split: option.splits)
  have "distinct (xs[j := v])" using assms(2,3) by (simp add: distinct_list_update)
  moreover have "set (xs[j := v]) \<subseteq> insert v (set xs)" by (rule set_update_subset_insert)
  ultimately show ?thesis using ys by simp
qed

lemma bed_sample_loop_distinct:
  "distinct (lines @ rest) \<Longrightarrow> bed_sample_loop tape n i c rest lines = Inr out
     \<Longrightarrow> distinct out \<and> set out \<subseteq> set (lines @ rest)"
proof (induction rest arbitrary: i c lines)
  case Nil
  then show ?case by simp
next
  case (Cons line rest)
  show ?case
  proof (cases "int i < n")
    case True
    then have run: "bed_sample_loop tape n (Suc i) c rest (lines @ [line]) = Inr out"
      using Cons.prems(2) by simp
    have "distinct ((lines @ [line]) @ rest)" using Cons.prems(1) by auto
    from Cons.IH [OF this run] show ?thesis by auto
  next
    case False
    let ?r = "randint tape c 0 (int i)"
    show ?thesis
    proof (cases "?r < n")
      case True
      then obtain lines' where
        set1: "py_setitem lines ?r line = Inr lines'" and
        run: "bed_sample_loop tape n (Suc i) (Suc c) rest lines' = Inr out"
        using False Cons.prems(2) by (auto simp: Let_def split: sum.splits)
      have d: "distinct lines" "line \<notin> set lines" using Cons.prems(1) by auto
      from py_setitem_distinct [OF set1 d]
      have l': "distinct lines'" "set lines' \<subseteq> insert line (set lines)" by auto
      have "distinct (lines' @ rest)" using l' Cons.prems(1) by auto
      from Cons.IH [OF this run] show ?thesis using l' by auto
    next
      case r: False
      then have run: "bed_sample_loop tape n (Suc i) (Suc c) rest lines = Inr out"
        using False Cons.prems(2) by (simp add: Let_def)
      have "distinct (lines @ rest)" using Cons.prems(1) by auto
      from Cons.IH [OF this run] show ?thesis by auto
    qed
  qed
qed

lemma bed_sample_loop_length:
  "0 < n \<Longrightarrow> length lines = min (nat n) i
     \<Longrightarrow> \<exists>out. bed_sample_loop tape n i c rest lines = Inr out
            \<and> length out = min (nat n) (i + length rest)"
proof (induction rest arbitrary: i c lines)
  case Nil
  then show ?case by simp
next
  case (Cons line rest)
  show ?case
  proof (cases "int i < n")
    case True
    have "length (lines @ [line]) = min (nat n) (Suc i)"
      using True Cons.prems by simp
    from Cons.IH [OF Cons.prems(1) this, of c] show ?thesis using True by simp
  next
    case False
    let ?r = "randint tape c 0 (int i)"
    have len: "length lines = nat n" using False Cons.prems by simp
    have r0: "0 \<le> ?r" using randint_range [of 0 "int i" tape c] by simp
    show ?thesis
    proof (cases "?r < n")
      case True
      have set1: "py_setitem lines ?r line = Inr (lines[nat ?r := line])"
        using True r0 len by (simp add: py_setitem_def py_index_def)
      have "length (lines[nat ?r := line]) = min (nat n) (Suc i)"
        using len False by simp
      from Cons.IH [OF Cons.prems(1) this, of "Suc c"] show ?thesis
        using False True set1 by (simp add: Let_def)
    next
      case r: False
      have "length lines = min (nat n) (Suc i)" using len False by simp
      from Cons.IH [OF Cons.prems(1) this, of "Suc c"] show ?thesis
        using False r by (simp add: Let_def)
    qed
  qed
qed

lemma bed_sample_sound:
  assumes "0 < n"
  shows "\<exists>out idxs. bed_sample_lines tape n bed = Inr out
           \<and> length out = min (nat n) (length bed)
           \<and> bed_sample_lines tape n [0..<length bed] = Inr idxs
           \<and> out = map (\<lambda>j. bed ! j) idxs
           \<and> distinct idxs \<and> (\<forall>j\<in>set idxs. j < length bed)"
proof -
  obtain out where out: "bed_sample_lines tape n bed = Inr out"
      and len: "length out = min (nat n) (length bed)"
    using bed_sample_loop_length [OF assms, of "[]" 0 tape 0 bed]
    by (auto simp: bed_sample_lines_def)
  obtain idxs where idxs: "bed_sample_lines tape n [0..<length bed] = Inr idxs"
    using bed_sample_loop_length [OF assms, of "[]" 0 tape 0 "[0..<length bed]"]
    by (auto simp: bed_sample_lines_def)
  have d: "distinct idxs \<and> set idxs \<subseteq> set ([] @ [0..<length bed])"
    by (rule bed_sample_loop_distinct [of "[]" "[0..<length bed]" tape n 0 0])
       (use idxs in \<open>simp_all add: bed_sample_lines_def\<close>)
  have "bed_sample_lines tape n (map (\<lambda>j. bed ! j) [0..<length bed])
          = map_sum id (map (\<lambda>j. bed ! j)) (bed_sample_lines tape n [0..<length bed])"
    using bed_sample_loop_map [of tape n 0 0 "\<lambda>j. bed ! j" "[0..<length bed]" "[]"]
    by (simp add: bed_sample_lines_def)
  then have "out = map (\<lambda>j. bed ! j) idxs"
    using out idxs by (simp add: map_nth)
  then show ?thesis using out len idxs d by auto
qed

section \<open>Properties of the lines of a text\<close>






lemma py_lines_terminated_append:
  "is_line l \<Longrightarrow> terminated l \<Longrightarrow> py_lines (l @ t) = l # py_lines t"
proof (induction l)
  case Nil
  then show ?case by (simp add: is_line_def)
next
  case (Cons ch cs)
  show ?case
  proof (cases "cs = []")
    case True
    then show ?thesis using Cons.prems by (simp add: terminated_def)
  next
    case False
    then have "ch \<noteq> newline" "is_line cs" "terminated cs"
      using Cons.prems by (auto simp: is_line_def terminated_def)
    then show ?thesis using Cons.IH by simp
  qed
qed

lemma py_lines_single: "is_line l \<Longrightarrow> py_lines l = [l]"
proof (induction l)
  case Nil
  then show ?case by (simp add: is_line_def)
next
  case (Cons ch cs)
  show ?case
  proof (cases "cs = []")
    case True
    then show ?thesis by simp
  next
    case False
    then have "ch \<noteq> newline" "is_line cs"
      using Cons.prems by (auto simp: is_line_def)
    then show ?thesis using Cons.IH by simp
  qed
qed

lemma py_lines_concat:
  assumes "\<forall>l\<in>set ls. is_line l" "\<forall>l\<in>set (butlast ls). terminated l"
  shows "py_lines (concat ls) = ls"
  using assms
proof (induction ls)
  case Nil
  then show ?case by simp
next
  case (Cons l ls)
  show ?case
  proof (cases "ls = []")
    case True
    then show ?thesis using Cons.prems by (simp add: py_lines_single)
  next
    case False
    then have "terminated l" "is_line l" using Cons.prems by simp_all
    moreover have "py_lines (concat ls) = ls" using Cons False by simp
    ultimately show ?thesis by (simp add: py_lines_terminated_append)
  qed
qed

section \<open>Claims about bed-sample\<close>




text \<open>
  C8 (as the code has it). A sample size \<open>n \<le> 0\<close> is not rejected: no line is ever
  appended, no draw is below \<open>n\<close>, the buffer stays empty and the command prints
  the empty text.
\<close>

theorem bed_sample_nonpositive_prints_nothing:
  "n \<le> 0 \<Longrightarrow> bed_sample_lines tape n lines = Inr [] \<and> bed_sample tape n bed = Inr []"
  by (simp add: bed_sample_def bed_sample_lines_def bed_sample_loop_nonpositive)

theorem bed_sample_nonpositive_prints_nothing_witness:
  "(0::int) \<le> 0 \<and> bed_sample_lines zero_tape 0 (py_lines demo_text) = Inr []
   \<and> bed_sample zero_tape 0 demo_text = Inr []"
  using bed_sample_nonpositive_prints_nothing [of 0 zero_tape "py_lines demo_text" demo_text]
  by simp

theorem bed_sample_nonpositive_counterexample:
  "\<not> (\<forall>(tape::tape) (n::int) (bed::string).
         n \<le> 0 \<longrightarrow> (\<exists>e. bed_sample tape n bed = Inl e))"
proof
  assume h: "\<forall>(tape::tape) (n::int) (bed::string).
         n \<le> 0 \<longrightarrow> (\<exists>e. bed_sample tape n bed = Inl e)"
  have "\<exists>e. bed_sample zero_tape (-1) demo_text = Inl e"
    using h by simp
  moreover have "bed_sample zero_tape (-1) demo_text = Inr []"
    by (simp add: bed_sample_def bed_sample_lines_def bed_sample_loop_nonpositive)
  ultimately show False by simp
qed

section \<open>Claims about extend_bed\<close>

text \<open>
  C3. \<open>extend_bed\<close> never fails its assertion \<open>toks[1] <= toks[2]\<close>. Whenever it
  returns, every input row had a start \<open>s\<close> and an end \<open>e\<close>, and the output row
  at the same position has start and end computed from \<open>half = bases div 2\<close>:
  \<open>max 0 (s - half)\<close> and \<open>max 0 (e + half)\<close>, or both their midpoint when the
  first exceeds the second; in every case \<open>0 \<le> start \<le> end\<close>. On rows that all
  have a start and an end the function does return.
\<close>

theorem extend_bed_start_le_end:
  "extend_bed fin bases \<noteq> Inl AssertionError
   \<and> (\<forall>out. extend_bed fin bases = Inr out \<longrightarrow>
         list_all2
           (\<lambda>toks toks'.
              (\<exists>s e. start_of toks = Some s \<and> end_of toks = Some e
                 \<and> start_of toks' =
                     Some (if max 0 (s - bases div 2) > max 0 (e + bases div 2)
                           then (max 0 (s - bases div 2) + max 0 (e + bases div 2)) div 2
                           else max 0 (s - bases div 2))
                 \<and> end_of toks' =
                     Some (if max 0 (s - bases div 2) > max 0 (e + bases div 2)
                           then (max 0 (s - bases div 2) + max 0 (e + bases div 2)) div 2
                           else max 0 (e + bases div 2)))
              \<and> (\<exists>a b. start_of toks' = Some a \<and> end_of toks' = Some b \<and> 0 \<le> a \<and> a \<le> b))
           fin out)
   \<and> ((\<forall>toks\<in>set fin. well_formed toks) \<longrightarrow> (\<exists>out. extend_bed fin bases = Inr out))"
proof (intro conjI allI impI)
  show "extend_bed fin bases \<noteq> Inl AssertionError"
    unfolding extend_bed_def by (rule extend_bed_loop_no_assert)
next
  fix out
  assume "extend_bed fin bases = Inr out"
  then have "list_all2 (\<lambda>toks toks'. extend_toks (bases div 2) toks = Inr toks') fin out"
    by (simp add: extend_bed_def extend_bed_loop_Inr)
  then show "list_all2
           (\<lambda>toks toks'.
              (\<exists>s e. start_of toks = Some s \<and> end_of toks = Some e
                 \<and> start_of toks' =
                     Some (if max 0 (s - bases div 2) > max 0 (e + bases div 2)
                           then (max 0 (s - bases div 2) + max 0 (e + bases div 2)) div 2
                           else max 0 (s - bases div 2))
                 \<and> end_of toks' =
                     Some (if max 0 (s - bases div 2) > max 0 (e + bases div 2)
                           then (max 0 (s - bases div 2) + max 0 (e + bases div 2)) div 2
                           else max 0 (e + bases div 2)))
              \<and> (\<exists>a b. start_of toks' = Some a \<and> end_of toks' = Some b \<and> 0 \<le> a \<and> a \<le> b))
           fin out"
  proof (rule list_all2_mono)
    fix toks toks'
    assume r: "extend_toks (bases div 2) toks = Inr toks'"
    from extend_toks_row(2) [OF r] extend_toks_row(3) [OF r]
    show "(\<exists>s e. start_of toks = Some s \<and> end_of toks = Some e
                 \<and> start_of toks' =
                     Some (if max 0 (s - bases div 2) > max 0 (e + bases div 2)
                           then (max 0 (s - bases div 2) + max 0 (e + bases div 2)) div 2
                           else max 0 (s - bases div 2))
                 \<and> end_of toks' =
                     Some (if max 0 (s - bases div 2) > max 0 (e + bases div 2)
                           then (max 0 (s - bases div 2) + max 0 (e + bases div 2)) div 2
                           else max 0 (e + bases div 2)))
              \<and> (\<exists>a b. start_of toks' = Some a \<and> end_of toks' = Some b \<and> 0 \<le> a \<and> a \<le> b)"
      by (rule conjI)
  qed
next
  assume "\<forall>toks\<in>set fin. well_formed toks"
  then show "\<exists>out. extend_bed fin bases = Inr out"
    unfolding extend_bed_def by (rule extend_bed_loop_total)
qed

theorem extend_bed_start_le_end_witness:
  "extend_bed [[''chr1'', ''5'', ''10'', ''x'']] 20 = Inr [[''chr1'', ''0'', ''20'', ''x'']]
   \<and> list_all well_formed [[''chr1'', ''5'', ''10'', ''x'']]
   \<and> (\<exists>a b. start_of [''chr1'', ''0'', ''20'', ''x''] = Some a
          \<and> end_of [''chr1'', ''0'', ''20'', ''x''] = Some b \<and> 0 \<le> a \<and> a \<le> b)"
proof -
  have run: "extend_bed [[''chr1'', ''5'', ''10'', ''x'']] 20 = Inr [[''chr1'', ''0'', ''20'', ''x'']]"
    by code_simp
  have wf: "\<forall>toks\<in>set [[''chr1'', ''5'', ''10'', ''x'']]. well_formed toks"
    by code_simp
  from extend_bed_start_le_end [of "[[''chr1'', ''5'', ''10'', ''x'']]" 20] run
  have "\<exists>a b. start_of [''chr1'', ''0'', ''20'', ''x''] = Some a
          \<and> end_of [''chr1'', ''0'', ''20'', ''x''] = Some b \<and> 0 \<le> a \<and> a \<le> b"
    by simp
  moreover have "list_all well_formed [[''chr1'', ''5'', ''10'', ''x'']]"
    using wf by (simp add: list_all_iff)
  ultimately show ?thesis using run by blast
qed

section \<open>Claims about distance-shuffle and the fields it leaves alone\<close>

lemma distance_shuffle_same_fields:
  assumes "distance_shuffle tape bed dist' = Inr out"
  shows "list_all2 same_fields bed out"
proof -
  from assms have len: "length out = length bed"
    and rows: "\<forall>j<length bed.
        shuffle_toks (randint tape (0 + j) (- \<bar>dist'\<bar>) \<bar>dist'\<bar>) (bed ! j) = Inr (out ! j)"
    by (simp_all add: distance_shuffle_def distance_shuffle_loop_Inr)
  have "\<forall>j<length bed. same_fields (bed ! j) (out ! j)"
    using rows shuffle_toks_same_fields by blast
  with len show ?thesis by (simp add: list_all2_conv_all_nth)
qed

lemma extend_bed_same_fields:
  assumes "extend_bed bed bases = Inr out"
  shows "list_all2 same_fields bed out"
proof -
  from assms have "list_all2 (\<lambda>toks toks'. extend_toks (bases div 2) toks = Inr toks') bed out"
    by (simp add: extend_bed_def extend_bed_loop_Inr)
  then show ?thesis
    by (rule list_all2_mono) (rule extend_toks_row(1))
qed

text \<open>
  C7. Whenever \<open>distance_shuffle\<close> or \<open>extend_bed\<close> returns, the output has as many
  rows as the input, and the row at each position has the same number of fields,
  the same field 0 and the same fields from 3 on as the input row at that
  position (\<open>list_all2\<close> relates the two files position by position). On rows
  that all have a start and an end both functions return.
\<close>

theorem shuffle_and_extend_keep_other_fields:
  "(\<forall>out. distance_shuffle tape bed dist' = Inr out \<longrightarrow> list_all2 same_fields bed out)
   \<and> (\<forall>out. extend_bed bed bases = Inr out \<longrightarrow> list_all2 same_fields bed out)
   \<and> ((\<forall>toks\<in>set bed. well_formed toks) \<longrightarrow>
        (\<exists>out1 out2. distance_shuffle tape bed dist' = Inr out1
                    \<and> extend_bed bed bases = Inr out2))"
proof (intro conjI allI impI)
  fix out
  assume "distance_shuffle tape bed dist' = Inr out"
  then show "list_all2 same_fields bed out" by (rule distance_shuffle_same_fields)
next
  fix out
  assume "extend_bed bed bases = Inr out"
  then show "list_all2 same_fields bed out" by (rule extend_bed_same_fields)
next
  assume wf: "\<forall>toks\<in>set bed. well_formed toks"
  from distance_shuffle_loop_total [OF wf, of tape "\<bar>dist'\<bar>" 0]
  obtain out1 where "distance_shuffle tape bed dist' = Inr out1"
    by (auto simp: distance_shuffle_def)
  moreover from extend_bed_loop_total [OF wf, of "bases div 2"]
  obtain out2 where "extend_bed bed bases = Inr out2"
    by (auto simp: extend_bed_def)
  ultimately show "\<exists>out1 out2. distance_shuffle tape bed dist' = Inr out1
                    \<and> extend_bed bed bases = Inr out2"
    by blast
qed

theorem shuffle_and_extend_keep_other_fields_witness:
  "list_all well_formed [[''chr1'', ''5'', ''10'', ''Pol2'', ''+'']]
   \<and> distance_shuffle zero_tape [[''chr1'', ''5'', ''10'', ''Pol2'', ''+'']] 7
        = Inr [[''chr1'', ''0'', ''3'', ''Pol2'', ''+'']]
   \<and> extend_bed [[''chr1'', ''5'', ''10'', ''Pol2'', ''+'']] 20
        = Inr [[''chr1'', ''0'', ''20'', ''Pol2'', ''+'']]
   \<and> list_all2 same_fields [[''chr1'', ''5'', ''10'', ''Pol2'', ''+'']]
        [[''chr1'', ''0'', ''3'', ''Pol2'', ''+'']]
   \<and> list_all2 same_fields [[''chr1'', ''5'', ''10'', ''Pol2'', ''+'']]
        [[''chr1'', ''0'', ''20'', ''Pol2'', ''+'']]"
proof -
  have wf: "\<forall>toks\<in>set [[''chr1'', ''5'', ''10'', ''Pol2'', ''+'']]. well_formed toks"
    by code_simp
  have r1: "distance_shuffle zero_tape [[''chr1'', ''5'', ''10'', ''Pol2'', ''+'']] 7
        = Inr [[''chr1'', ''0'', ''3'', ''Pol2'', ''+'']]"
    by code_simp
  have r2: "extend_bed [[''chr1'', ''5'', ''10'', ''Pol2'', ''+'']] 20
        = Inr [[''chr1'', ''0'', ''20'', ''Pol2'', ''+'']]"
    by code_simp
  from shuffle_and_extend_keep_other_fields
         [of zero_tape "[[''chr1'', ''5'', ''10'', ''Pol2'', ''+'']]" 7 20] r1 r2
  have "list_all2 same_fields [[''chr1'', ''5'', ''10'', ''Pol2'', ''+'']]
          [[''chr1'', ''0'', ''3'', ''Pol2'', ''+'']]
        \<and> list_all2 same_fields [[''chr1'', ''5'', ''10'', ''Pol2'', ''+'']]
          [[''chr1'', ''0'', ''20'', ''Pol2'', ''+'']]"
    by simp
  moreover have "list_all well_formed [[''chr1'', ''5'', ''10'', ''Pol2'', ''+'']]"
    using wf by (simp add: list_all_iff)
  ultimately show ?thesis using r1 r2 by blast
qed

lemma width_of_Some:
  "start_of toks = Some s \<Longrightarrow> end_of toks = Some e \<Longrightarrow> width_of toks = Some (e - s)"
  by (simp add: width_of_def)

text \<open>
  C1 (as the code has it). On rows that all have a start \<open>s\<close> and an end \<open>e\<close>,
  \<open>distance_shuffle\<close> returns one row per input row, and row \<open>j\<close> is moved by one
  draw \<open>d\<close> of its own with \<open>-|dist| \<le> d \<le> |dist|\<close>. The comprehension clamps
  both coordinates: the new start is \<open>max 0 (s + d)\<close>, never negative, and the new
  end is \<open>max 0 (e + d)\<close>. The width \<open>e - s\<close> is kept when \<open>0 \<le> s + d\<close> (for
  \<open>s \<le> e\<close>). When the draw pushes the start below 0 the new width is
  \<open>max 0 (e + d)\<close>, which is smaller than \<open>e - s\<close> for \<open>s < e\<close>: the interval is
  shrunk at the edge.
\<close>

theorem distance_shuffle_clamps_start_and_end:
  assumes wf: "\<forall>toks\<in>set bed. well_formed toks"
  shows "\<exists>out. distance_shuffle tape bed dist' = Inr out \<and> length out = length bed \<and>
    (\<forall>j<length bed. \<forall>s e. start_of (bed ! j) = Some s \<longrightarrow> end_of (bed ! j) = Some e \<longrightarrow>
       (\<exists>d. d = randint tape j (- \<bar>dist'\<bar>) \<bar>dist'\<bar> \<and> - \<bar>dist'\<bar> \<le> d \<and> d \<le> \<bar>dist'\<bar>
          \<and> start_of (out ! j) = Some (max 0 (s + d))
          \<and> end_of (out ! j) = Some (max 0 (e + d))
          \<and> (0 \<le> s + d \<longrightarrow> s \<le> e \<longrightarrow> width_of (out ! j) = Some (e - s))
          \<and> (s + d < 0 \<longrightarrow> width_of (out ! j) = Some (max 0 (e + d))
                \<and> (s < e \<longrightarrow> max 0 (e + d) < e - s))))"
proof -
  from distance_shuffle_loop_total [OF wf, of tape "\<bar>dist'\<bar>" 0]
  obtain out where run: "distance_shuffle tape bed dist' = Inr out"
    by (auto simp: distance_shuffle_def)
  then have len: "length out = length bed"
    and rows: "\<forall>j<length bed.
        shuffle_toks (randint tape (0 + j) (- \<bar>dist'\<bar>) \<bar>dist'\<bar>) (bed ! j) = Inr (out ! j)"
    by (simp_all add: distance_shuffle_def distance_shuffle_loop_Inr)
  have "\<exists>d. d = randint tape j (- \<bar>dist'\<bar>) \<bar>dist'\<bar> \<and> - \<bar>dist'\<bar> \<le> d \<and> d \<le> \<bar>dist'\<bar>
          \<and> start_of (out ! j) = Some (max 0 (s + d))
          \<and> end_of (out ! j) = Some (max 0 (e + d))
          \<and> (0 \<le> s + d \<longrightarrow> s \<le> e \<longrightarrow> width_of (out ! j) = Some (e - s))
          \<and> (s + d < 0 \<longrightarrow> width_of (out ! j) = Some (max 0 (e + d))
                \<and> (s < e \<longrightarrow> max 0 (e + d) < e - s))"
    if j: "j < length bed" and s: "start_of (bed ! j) = Some s" and e: "end_of (bed ! j) = Some e"
    for j s e
  proof -
    define d where "d = randint tape j (- \<bar>dist'\<bar>) \<bar>dist'\<bar>"
    have range: "- \<bar>dist'\<bar> \<le> d \<and> d \<le> \<bar>dist'\<bar>"
      unfolding d_def by (rule randint_range) simp
    from rows j have r: "shuffle_toks d (bed ! j) = Inr (out ! j)"
      by (simp add: d_def)
    from shuffle_toks_well_formed [OF s e, of d] r
    have se: "start_of (out ! j) = Some (max 0 (s + d))"
             "end_of (out ! j) = Some (max 0 (e + d))"
      by auto
    have w: "width_of (out ! j) = Some (max 0 (e + d) - max 0 (s + d))"
      using se by (rule width_of_Some)
    have w1: "0 \<le> s + d \<longrightarrow> s \<le> e \<longrightarrow> width_of (out ! j) = Some (e - s)"
      using w by auto
    have w2: "s + d < 0 \<longrightarrow> width_of (out ! j) = Some (max 0 (e + d))
                \<and> (s < e \<longrightarrow> max 0 (e + d) < e - s)"
      using w by auto
    from range se w1 w2 d_def show ?thesis by blast
  qed
  with run len show ?thesis by blast
qed


theorem distance_shuffle_clamps_start_and_end_witness:
  "list_all well_formed [[''chr1'', ''5'', ''10'', ''x'']]
   \<and> (\<exists>out. distance_shuffle zero_tape [[''chr1'', ''5'', ''10'', ''x'']] 7 = Inr out
          \<and> length out = 1
          \<and> start_of (out ! 0) = Some 0 \<and> end_of (out ! 0) = Some 3
          \<and> width_of (out ! 0) = Some 3)"
proof -
  have wf: "\<forall>toks\<in>set [[''chr1'', ''5'', ''10'', ''x'']]. well_formed toks"
    by code_simp
  have s: "start_of ([[''chr1'', ''5'', ''10'', ''x'']] ! 0) = Some 5"
    by code_simp
  have e: "end_of ([[''chr1'', ''5'', ''10'', ''x'']] ! 0) = Some 10"
    by code_simp
  have d: "randint zero_tape 0 (- \<bar>7\<bar>) \<bar>7\<bar> = - 7"
    by (simp add: randint_def zero_tape_def)
  from distance_shuffle_clamps_start_and_end [OF wf, of zero_tape 7] obtain out where
    run: "distance_shuffle zero_tape [[''chr1'', ''5'', ''10'', ''x'']] 7 = Inr out" and
    len: "length out = length [[''chr1'', ''5'', ''10'', ''x'']]" and
    rows: "\<forall>j<length [[''chr1'', ''5'', ''10'', ''x'']]. \<forall>s e.
       start_of ([[''chr1'', ''5'', ''10'', ''x'']] ! j) = Some s \<longrightarrow>
       end_of ([[''chr1'', ''5'', ''10'', ''x'']] ! j) = Some e \<longrightarrow>
       (\<exists>d. d = randint zero_tape j (- \<bar>7\<bar>) \<bar>7\<bar> \<and> - \<bar>7\<bar> \<le> d \<and> d \<le> \<bar>7\<bar>
          \<and> start_of (out ! j) = Some (max 0 (s + d))
          \<and> end_of (out ! j) = Some (max 0 (e + d))
          \<and> (0 \<le> s + d \<longrightarrow> s \<le> e \<longrightarrow> width_of (out ! j) = Some (e - s))
          \<and> (s + d < 0 \<longrightarrow> width_of (out ! j) = Some (max 0 (e + d))
                \<and> (s < e \<longrightarrow> max 0 (e + d) < e - s)))"
    by blast
  from rows [rule_format, of 0 5 10] s e d
  have "start_of (out ! 0) = Some 0 \<and> end_of (out ! 0) = Some 3 \<and> width_of (out ! 0) = Some 3"
    by simp
  moreover have "list_all well_formed [[''chr1'', ''5'', ''10'', ''x'']]"
    using wf by (simp add: list_all_iff)
  ultimately show ?thesis using run len by auto
qed

theorem distance_shuffle_width_counterexample:
  "\<not> (\<forall>(tape::tape) bed dist' out.
        0 \<le> dist' \<longrightarrow> distance_shuffle tape bed dist' = Inr out \<longrightarrow>
        (\<forall>j<length bed. width_of (out ! j) = width_of (bed ! j)))"
proof
  assume h: "\<forall>(tape::tape) bed dist' out.
        0 \<le> dist' \<longrightarrow> distance_shuffle tape bed dist' = Inr out \<longrightarrow>
        (\<forall>j<length bed. width_of (out ! j) = width_of (bed ! j))"
  have run: "distance_shuffle zero_tape [[''chr1'', ''5'', ''10'']] 7 = Inr [[''chr1'', ''0'', ''3'']]"
    by code_simp
  from h [rule_format, of 7 zero_tape "[[''chr1'', ''5'', ''10'']]" "[[''chr1'', ''0'', ''3'']]" 0] run
  have "width_of ([[''chr1'', ''0'', ''3'']] ! 0) = width_of ([[''chr1'', ''5'', ''10'']] ! 0)"
    by simp
  moreover have "width_of ([[''chr1'', ''0'', ''3'']] ! 0) = Some 3" by code_simp
  moreover have "width_of ([[''chr1'', ''5'', ''10'']] ! 0) = Some 5" by code_simp
  ultimately show False by simp
qed

section \<open>Claims about zclude\<close>

text \<open>
  C9. Without a mask (\<open>other is None\<close>) \<open>zclude\<close> returns the input file
  unchanged and writes no diagnostic, in exclude mode and in include mode.
\<close>

theorem zclude_without_mask:
  "zclude bt bed None True = Inr (bed, []) \<and> zclude bt bed None False = Inr (bed, [])"
  by (simp add: zclude_def)

text \<open>
  C10. With a mask, \<open>zclude\<close> on an empty file raises ZeroDivisionError in both
  modes and for every behaviour of the external tool: the percentage is divided
  by the number of rows of the input, which is zero.
\<close>

theorem zclude_empty_bed_fails:
  "zclude bt [] (Some other') exclude = Inl ZeroDivisionError"
  by (simp add: zclude_def py_truediv_def Let_def)

section \<open>Properties of the summary\<close>

lemma sum_indicator:
  "sum_list (map (\<lambda>s. if s \<ge> obs then 1 else 0) sims) = int (length (filter (\<lambda>s. obs \<le> s) sims))"
  by (induction sims) auto

lemma summarize_nonempty:
  assumes "sims \<noteq> []"
  shows "summarize obs sims =
     Inr \<lparr>r_observed = obs,
          r_mean = of_int (sum_list sims) / of_nat (length sims),
          r_pvalue = of_nat (length (filter (\<lambda>s. obs \<le> s) sims)) / of_nat (length sims),
          r_sims = sims\<rparr>"
  using assms by (simp add: summarize_def py_truediv_def sum_indicator)

text \<open>
  Without masks and without extension, \<open>poverlap\<close> is the summary of the
  observed count and the counts of its \<open>n\<close> shuffle runs.
\<close>

lemma poverlap_plain:
  "poverlap bt shuf_count a b n None None 0 =
     summarize (int (length (intersect_u bt a b))) (run_trials (shuf_count a b) n)"
  by (simp add: poverlap_def limit_regions_def zclude_def)

lemma summarize_empty: "summarize obs [] = Inl ZeroDivisionError"
  by (simp add: summarize_def py_truediv_def)

lemma run_trials_length: "length (run_trials shuf n) = nat n"
  by (simp add: run_trials_def)

lemma pvalue_range:
  assumes "sims \<noteq> []"
  shows "0 \<le> (of_nat (length (filter P sims)) :: real) / of_nat (length sims)"
    and "(of_nat (length (filter P sims)) :: real) / of_nat (length sims) \<le> 1"
proof -
  show "0 \<le> (of_nat (length (filter P sims)) :: real) / of_nat (length sims)" by simp
  have "length (filter P sims) \<le> length sims" by (rule length_filter_le)
  then have "(of_nat (length (filter P sims)) :: real) \<le> of_nat (length sims)" by simp
  moreover have "(0::real) < of_nat (length sims)" using assms by simp
  ultimately show "(of_nat (length (filter P sims)) :: real) / of_nat (length sims) \<le> 1"
    by (simp add: divide_le_eq_1)
qed

text \<open>
  C4. With at least one trial the summary is computed: the mean is the sum of the
  simulated counts over their number, and the p-value is the number of simulated
  counts \<open>s\<close> with \<open>observed \<le> s\<close> over the number of trials, so a count equal to
  the observed one is counted. When every simulated count equals the observed
  count the p-value is 1.
\<close>

theorem summarize_counts_ties:
  assumes "1 \<le> n"
  shows "summarize obs (run_trials shuf n) =
           Inr \<lparr>r_observed = obs,
                r_mean = of_int (sum_list (run_trials shuf n)) / of_int n,
                r_pvalue = of_nat (length (filter (\<lambda>s. obs \<le> s) (run_trials shuf n))) / of_int n,
                r_sims = run_trials shuf n\<rparr>
         \<and> ((\<forall>s\<in>set (run_trials shuf n). s = obs) \<longrightarrow>
              (\<exists>r. summarize obs (run_trials shuf n) = Inr r \<and> r_pvalue r = 1))"
proof -
  have len: "length (run_trials shuf n) = nat n" by (rule run_trials_length)
  then have ne: "run_trials shuf n \<noteq> []" using assms by auto
  have n: "(of_nat (length (run_trials shuf n)) :: real) = of_int n"
    using len assms by simp
  have eq: "summarize obs (run_trials shuf n) =
           Inr \<lparr>r_observed = obs,
                r_mean = of_int (sum_list (run_trials shuf n)) / of_int n,
                r_pvalue = of_nat (length (filter (\<lambda>s. obs \<le> s) (run_trials shuf n))) / of_int n,
                r_sims = run_trials shuf n\<rparr>"
    using summarize_nonempty [OF ne, of obs] by (simp only: n)
  have one: "\<exists>r. summarize obs (run_trials shuf n) = Inr r \<and> r_pvalue r = 1"
    if all: "\<forall>s\<in>set (run_trials shuf n). s = obs"
  proof -
    have f: "filter (\<lambda>s. obs \<le> s) (run_trials shuf n) = run_trials shuf n"
      using all by (simp add: filter_id_conv)
    have "(of_nat (length (filter (\<lambda>s. obs \<le> s) (run_trials shuf n))) :: real) = of_int n"
      by (simp only: f n)
    moreover have "(of_int n :: real) \<noteq> 0" using assms by simp
    ultimately have h:
      "(of_nat (length (filter (\<lambda>s. obs \<le> s) (run_trials shuf n))) :: real) / of_int n = 1"
      by simp
    have "r_pvalue \<lparr>r_observed = obs,
                r_mean = of_int (sum_list (run_trials shuf n)) / of_int n,
                r_pvalue = of_nat (length (filter (\<lambda>s. obs \<le> s) (run_trials shuf n))) / of_int n,
                r_sims = run_trials shuf n\<rparr> = 1"
      by (simp only: report.select_convs h)
    with eq show ?thesis by blast
  qed
  show ?thesis
  proof (intro conjI impI)
    show "summarize obs (run_trials shuf n) =
           Inr \<lparr>r_observed = obs,
                r_mean = of_int (sum_list (run_trials shuf n)) / of_int n,
                r_pvalue = of_nat (length (filter (\<lambda>s. obs \<le> s) (run_trials shuf n))) / of_int n,
                r_sims = run_trials shuf n\<rparr>"
      by (rule eq)
  next
    assume "\<forall>s\<in>set (run_trials shuf n). s = obs"
    then show "\<exists>r. summarize obs (run_trials shuf n) = Inr r \<and> r_pvalue r = 1"
      by (rule one)
  qed
qed

theorem summarize_counts_ties_witness:
  "(1::int) \<le> 4 \<and> list_all (\<lambda>s. s = 0) (run_trials zero_runs 4)
   \<and> (\<exists>r. summarize 0 (run_trials zero_runs 4) = Inr r \<and> r_pvalue r = 1)"
proof -
  have all: "\<forall>s\<in>set (run_trials zero_runs 4). s = 0"
    by (simp add: run_trials_def zero_runs_def)
  have le: "(1::int) \<le> 4" by simp
  from summarize_counts_ties [OF le, of 0 zero_runs] all
  have "\<exists>r. summarize 0 (run_trials zero_runs 4) = Inr r \<and> r_pvalue r = 1"
    by blast
  moreover have "list_all (\<lambda>s. s = 0) (run_trials zero_runs 4)"
    using all by (simp add: list_all_iff)
  ultimately show ?thesis using le by blast
qed

text \<open>
  C5 (as the code has it). With at least one trial there are exactly \<open>n\<close>
  simulated counts. The p-value is 0 when every simulated count is below the
  observed count, whatever the observed count is; when some simulated count
  reaches the observed count it lies between \<open>1 / n\<close> and 1.
\<close>

theorem pvalue_zero_or_at_least_one_over_trials:
  assumes "1 \<le> n"
  shows "\<exists>r. summarize obs (run_trials shuf n) = Inr r
           \<and> r_sims r = run_trials shuf n \<and> int (length (r_sims r)) = n
           \<and> ((\<forall>s\<in>set (r_sims r). s < obs) \<longrightarrow> r_pvalue r = 0)
           \<and> ((\<exists>s\<in>set (r_sims r). obs \<le> s) \<longrightarrow>
                 1 / of_int n \<le> r_pvalue r \<and> r_pvalue r \<le> 1)"
proof -
  let ?sims = "run_trials shuf n"
  let ?k = "length (filter (\<lambda>s. obs \<le> s) ?sims)"
  have len: "length ?sims = nat n" by (rule run_trials_length)
  then have ne: "?sims \<noteq> []" using assms by auto
  have n: "(of_nat (length ?sims) :: real) = of_int n" using len assms by simp
  have npos: "(0::real) < of_int n" using assms by simp
  note eq = summarize_nonempty [OF ne, of obs]
  have z: "(of_nat ?k :: real) / of_nat (length ?sims) = 0" if "\<forall>s\<in>set ?sims. s < obs"
  proof -
    have "filter (\<lambda>s. obs \<le> s) ?sims = []"
      using that by (auto simp: filter_empty_conv)
    then show ?thesis by simp
  qed
  have lo: "1 / of_int n \<le> (of_nat ?k :: real) / of_nat (length ?sims)"
    if "\<exists>s\<in>set ?sims. obs \<le> s"
  proof -
    have "filter (\<lambda>s. obs \<le> s) ?sims \<noteq> []"
      using that by (auto simp: filter_empty_conv)
    then have "1 \<le> ?k" by (cases "filter (\<lambda>s. obs \<le> s) ?sims") auto
    then have "(1::real) \<le> of_nat ?k" by simp
    then have "(1::real) / of_int n \<le> of_nat ?k / of_int n"
      using npos by (simp add: divide_right_mono)
    then show ?thesis by (simp only: n)
  qed
  have hi: "(of_nat ?k :: real) / of_nat (length ?sims) \<le> 1"
    by (rule pvalue_range(2) [OF ne])
  show ?thesis
    using eq len assms z lo hi by auto
qed

theorem pvalue_zero_or_at_least_one_over_trials_witness:
  "(1::int) \<le> 2
   \<and> (\<exists>r. summarize 0 (run_trials zero_runs 2) = Inr r \<and> int (length (r_sims r)) = 2
          \<and> 1 / 2 \<le> r_pvalue r \<and> r_pvalue r \<le> 1)
   \<and> (\<exists>r. summarize 1 (run_trials zero_runs 2) = Inr r \<and> int (length (r_sims r)) = 2
          \<and> r_pvalue r = 0)"
proof -
  have le: "(1::int) \<le> 2" by simp
  have s: "run_trials zero_runs 2 = [0, 0]"
    by (simp add: run_trials_def zero_runs_def numeral_2_eq_2)
  from pvalue_zero_or_at_least_one_over_trials [OF le, of 0 zero_runs] s
  have a: "\<exists>r. summarize 0 (run_trials zero_runs 2) = Inr r \<and> int (length (r_sims r)) = 2
          \<and> 1 / 2 \<le> r_pvalue r \<and> r_pvalue r \<le> 1"
    by auto
  from pvalue_zero_or_at_least_one_over_trials [OF le, of 1 zero_runs] s
  have b: "\<exists>r. summarize 1 (run_trials zero_runs 2) = Inr r \<and> int (length (r_sims r)) = 2
          \<and> r_pvalue r = 0"
    by auto
  from le a b show ?thesis by blast
qed

theorem pvalue_lower_bound_counterexample:
  "\<not> (\<forall>obs shuf n r. 1 \<le> n \<longrightarrow> 0 < obs \<longrightarrow> summarize obs (run_trials shuf n) = Inr r \<longrightarrow>
         int (length (r_sims r)) = n \<and> 1 / of_int n \<le> r_pvalue r \<and> r_pvalue r \<le> 1)"
proof
  assume h: "\<forall>obs shuf n r. 1 \<le> n \<longrightarrow> 0 < obs \<longrightarrow> summarize obs (run_trials shuf n) = Inr r \<longrightarrow>
         int (length (r_sims r)) = n \<and> 1 / of_int n \<le> r_pvalue r \<and> r_pvalue r \<le> 1"
  have run: "summarize 1 (run_trials zero_runs 2)
               = Inr \<lparr>r_observed = 1, r_mean = 0, r_pvalue = 0, r_sims = [0, 0]\<rparr>"
    by (simp add: summarize_def py_truediv_def run_trials_def zero_runs_def
                  numeral_2_eq_2)
  from h [rule_format, of 2 1 zero_runs, OF _ _ run]
  have "(1::real) / of_int 2 \<le> 0" by simp
  then show False by simp
qed

section \<open>Claims about fixle\<close>

lemma fixle_loop_partition:
  assumes "\<forall>toks\<in>set rest. row_type tc toks \<noteq> None"
  shows "fixle_loop (tc - 1) atype btype rest st =
     Inr (st\<lparr>afh := afh st @ filter (\<lambda>t. row_type tc t = Some atype) rest,
             ofh := ofh st @ filter (\<lambda>t. row_type tc t \<noteq> Some atype) rest,
             bfh := bfh st @ filter (\<lambda>t. row_type tc t = Some btype)
                              (filter (\<lambda>t. row_type tc t \<noteq> Some atype) rest),
             n_btypes := n_btypes st + length (filter (\<lambda>t. row_type tc t = Some btype)
                              (filter (\<lambda>t. row_type tc t \<noteq> Some atype) rest))\<rparr>)"
  using assms
proof (induction rest arbitrary: st)
  case Nil
  then show ?case by simp
next
  case (Cons toks rest)
  from Cons.prems obtain t where t: "py_getitem toks (tc - 1) = Inr t"
    by (auto simp: row_type_def split: sum.splits)
  then have rt: "row_type tc toks = Some t" by (simp add: row_type_def)
  have rest: "\<forall>toks\<in>set rest. row_type tc toks \<noteq> None" using Cons.prems by simp
  note IH = Cons.IH [OF rest]
  consider "t = atype" | "t \<noteq> atype" "t = btype" | "t \<noteq> atype" "t \<noteq> btype" by blast
  then show ?case
  proof cases
    case 1
    then show ?thesis using t rt by (simp add: IH)
  next
    case 2
    then show ?thesis using t rt by (simp add: IH)
  next
    case 3
    then show ?thesis using t rt by (simp add: IH)
  qed
qed

lemma fixle_files_partition:
  assumes "\<forall>toks\<in>set bed. row_type tc toks \<noteq> None"
  shows "fixle_files bed atype btype tc =
     (if filter (\<lambda>t. row_type tc t = Some btype) (filter (\<lambda>t. row_type tc t \<noteq> Some atype) bed) = []
      then Inl AssertionError
      else Inr \<lparr>afh = filter (\<lambda>t. row_type tc t = Some atype) bed,
                ofh = filter (\<lambda>t. row_type tc t \<noteq> Some atype) bed,
                bfh = filter (\<lambda>t. row_type tc t = Some btype)
                        (filter (\<lambda>t. row_type tc t \<noteq> Some atype) bed),
                n_btypes = length (filter (\<lambda>t. row_type tc t = Some btype)
                        (filter (\<lambda>t. row_type tc t \<noteq> Some atype) bed))\<rparr>)"
  by (simp add: fixle_files_def fixle_loop_partition [OF assms])


text \<open>
  \<open>bed-sample\<close> on a file written row by row with \<open>print\<close> prints the rows that
  the loop samples from the rows, written the same way.
\<close>

lemma join_tab_no_newline:
  "\<forall>f\<in>set toks. newline \<notin> set f \<Longrightarrow> newline \<notin> set (join_tab toks)"
  by (induction toks rule: join_tab.induct) (auto simp: newline_def)

lemma print_row_line:
  assumes "\<forall>f\<in>set toks. newline \<notin> set f"
  shows "is_line (print_row toks)" "terminated (print_row toks)"
  using join_tab_no_newline [OF assms]
  by (simp_all add: print_row_def is_line_def terminated_def)

lemma bed_sample_on_printed_rows:
  assumes "\<forall>toks\<in>set rows. \<forall>f\<in>set toks. newline \<notin> set f"
  shows "bed_sample tape n (concat (map print_row rows))
           = map_sum id (\<lambda>sample. concat (map print_row sample)) (bed_sample_lines tape n rows)"
proof -
  have all: "\<forall>l\<in>set (map print_row rows). is_line l \<and> terminated l"
    using assms print_row_line by auto
  then have "\<forall>l\<in>set (butlast (map print_row rows)). terminated l"
    by (meson in_set_butlastD)
  with all have "py_lines (concat (map print_row rows)) = map print_row rows"
    by (intro py_lines_concat) blast+
  moreover have "bed_sample_lines tape n (map print_row rows)
                   = map_sum id (map print_row) (bed_sample_lines tape n rows)"
    using bed_sample_loop_map [of tape n 0 0 print_row rows "[]"]
    by (simp add: bed_sample_lines_def)
  ultimately show ?thesis
    by (cases "bed_sample_lines tape n rows") (simp_all add: bed_sample_def)
qed

lemma fixle_sample_sound:
  assumes n: "0 < n_btypes st" and le: "n_btypes st \<le> length (ofh st)"
  shows "\<exists>idxs. bed_sample_lines tape (int (n_btypes st)) [0..<length (ofh st)] = Inr idxs
           \<and> distinct idxs \<and> (\<forall>j\<in>set idxs. j < length (ofh st))
           \<and> length idxs = n_btypes st
           \<and> fixle_sample tape st = map (\<lambda>j. ofh st ! j) idxs"
proof -
  have pos: "0 < int (n_btypes st)" using n by simp
  from bed_sample_sound [OF pos, of tape "ofh st"] obtain out idxs where
    out: "bed_sample_lines tape (int (n_btypes st)) (ofh st) = Inr out" and
    len: "length out = min (nat (int (n_btypes st))) (length (ofh st))" and
    idxs: "bed_sample_lines tape (int (n_btypes st)) [0..<length (ofh st)] = Inr idxs" and
    m: "out = map (\<lambda>j. ofh st ! j) idxs" and
    d: "distinct idxs" "\<forall>j\<in>set idxs. j < length (ofh st)"
    by blast
  have "length idxs = n_btypes st" using len m le by simp
  moreover have "fixle_sample tape st = map (\<lambda>j. ofh st ! j) idxs"
    using out m by (simp add: fixle_sample_def)
  ultimately show ?thesis using idxs d by blast
qed

text \<open>
  C6. On a file whose rows all have the type column: \<open>fixle\<close> fails its
  assertion exactly when no row that is not of type \<open>atype\<close> is of type
  \<open>btype\<close>. Otherwise the rows of type \<open>atype\<close> are written unchanged to the
  fixed file, all other rows form the pool, and the sample drawn in a
  randomization round has exactly as many rows as the pool has rows of type
  \<open>btype\<close>: they are the pool rows at pairwise distinct positions.
\<close>

theorem fixle_draws_from_background_pool:
  assumes "\<forall>toks\<in>set bed. row_type type_col toks \<noteq> None"
  shows "(fixle_files bed atype btype type_col = Inl AssertionError \<longleftrightarrow>
            \<not> (\<exists>toks\<in>set bed. row_type type_col toks \<noteq> Some atype
                               \<and> row_type type_col toks = Some btype))
     \<and> ((\<exists>toks\<in>set bed. row_type type_col toks \<noteq> Some atype
                        \<and> row_type type_col toks = Some btype) \<longrightarrow>
          (\<exists>st. fixle_files bed atype btype type_col = Inr st
             \<and> afh st = filter (\<lambda>t. row_type type_col t = Some atype) bed
             \<and> ofh st = filter (\<lambda>t. row_type type_col t \<noteq> Some atype) bed
             \<and> bfh st = filter (\<lambda>t. row_type type_col t = Some btype) (ofh st)
             \<and> n_btypes st = length (bfh st)
             \<and> (\<forall>tape. \<exists>idxs.
                   bed_sample_lines tape (int (n_btypes st)) [0..<length (ofh st)] = Inr idxs
                   \<and> distinct idxs \<and> (\<forall>j\<in>set idxs. j < length (ofh st))
                   \<and> length idxs = n_btypes st
                   \<and> fixle_sample tape st = map (\<lambda>j. ofh st ! j) idxs)))"
proof -
  let ?other = "filter (\<lambda>t. row_type type_col t \<noteq> Some atype) bed"
  let ?b = "filter (\<lambda>t. row_type type_col t = Some btype) ?other"
  let ?st = "\<lparr>afh = filter (\<lambda>t. row_type type_col t = Some atype) bed,
              ofh = ?other, bfh = ?b, n_btypes = length ?b\<rparr>"
  have ex: "(\<exists>toks\<in>set bed. row_type type_col toks \<noteq> Some atype
                          \<and> row_type type_col toks = Some btype) \<longleftrightarrow> ?b \<noteq> []"
    by (auto simp: filter_empty_conv)
  note files = fixle_files_partition [OF assms, of atype btype]
  have fail: "fixle_files bed atype btype type_col = Inl AssertionError \<longleftrightarrow> ?b = []"
    by (simp add: files)
  have ok: "\<exists>st. fixle_files bed atype btype type_col = Inr st
             \<and> afh st = filter (\<lambda>t. row_type type_col t = Some atype) bed
             \<and> ofh st = filter (\<lambda>t. row_type type_col t \<noteq> Some atype) bed
             \<and> bfh st = filter (\<lambda>t. row_type type_col t = Some btype) (ofh st)
             \<and> n_btypes st = length (bfh st)
             \<and> (\<forall>tape. \<exists>idxs.
                   bed_sample_lines tape (int (n_btypes st)) [0..<length (ofh st)] = Inr idxs
                   \<and> distinct idxs \<and> (\<forall>j\<in>set idxs. j < length (ofh st))
                   \<and> length idxs = n_btypes st
                   \<and> fixle_sample tape st = map (\<lambda>j. ofh st ! j) idxs)"
    if ne: "?b \<noteq> []"
  proof -
    have run: "fixle_files bed atype btype type_col = Inr ?st"
      using ne by (simp add: files)
    have pos: "0 < n_btypes ?st" using ne by simp
    have "length ?b \<le> length ?other" by (rule length_filter_le)
    then have le: "n_btypes ?st \<le> length (ofh ?st)"
      by (simp only: fixle_state.select_convs)
    have sample: "\<forall>tape. \<exists>idxs.
                   bed_sample_lines tape (int (n_btypes ?st)) [0..<length (ofh ?st)] = Inr idxs
                   \<and> distinct idxs \<and> (\<forall>j\<in>set idxs. j < length (ofh ?st))
                   \<and> length idxs = n_btypes ?st
                   \<and> fixle_sample tape ?st = map (\<lambda>j. ofh ?st ! j) idxs"
      using fixle_sample_sound [OF pos le] by blast
    show ?thesis
      by (rule exI [of _ ?st]) (use run sample in simp)
  qed
  show ?thesis using fail ex ok by blast
qed

theorem fixle_draws_from_background_pool_witness:
  "list_all (\<lambda>toks. row_type 4 toks \<noteq> None) scenario_bed
   \<and> (\<exists>toks\<in>set scenario_bed. row_type 4 toks \<noteq> Some ''Pol2'' \<and> row_type 4 toks = Some ''CTCF'')
   \<and> (\<exists>st. fixle_files scenario_bed ''Pol2'' ''CTCF'' 4 = Inr st
          \<and> length (afh st) = 3 \<and> length (ofh st) = 7 \<and> n_btypes st = 5
          \<and> length (fixle_sample demo_tape st) = 5)
   \<and> fixle_files scenario_bed ''Pol2'' ''Pol2'' 4 = Inl AssertionError"
proof -
  have cols: "\<forall>toks\<in>set scenario_bed. row_type 4 toks \<noteq> None"
    by code_simp
  have some: "\<exists>toks\<in>set scenario_bed. row_type 4 toks \<noteq> Some ''Pol2'' \<and> row_type 4 toks = Some ''CTCF''"
    by code_simp
  have la: "length (filter (\<lambda>t. row_type 4 t = Some ''Pol2'') scenario_bed) = 3"
    by code_simp
  have lo: "length (filter (\<lambda>t. row_type 4 t \<noteq> Some ''Pol2'') scenario_bed) = 7"
    by code_simp
  have lb: "length (filter (\<lambda>t. row_type 4 t = Some ''CTCF'')
              (filter (\<lambda>t. row_type 4 t \<noteq> Some ''Pol2'') scenario_bed)) = 5"
    by code_simp
  from fixle_draws_from_background_pool [OF cols, of "''Pol2''" "''CTCF''"] some
  obtain st where
    run: "fixle_files scenario_bed ''Pol2'' ''CTCF'' 4 = Inr st" and
    a: "afh st = filter (\<lambda>t. row_type 4 t = Some ''Pol2'') scenario_bed" and
    ot: "ofh st = filter (\<lambda>t. row_type 4 t \<noteq> Some ''Pol2'') scenario_bed" and
    b: "bfh st = filter (\<lambda>t. row_type 4 t = Some ''CTCF'') (ofh st)" and
    n: "n_btypes st = length (bfh st)" and
    sample: "\<forall>tape. \<exists>idxs.
                   bed_sample_lines tape (int (n_btypes st)) [0..<length (ofh st)] = Inr idxs
                   \<and> distinct idxs \<and> (\<forall>j\<in>set idxs. j < length (ofh st))
                   \<and> length idxs = n_btypes st
                   \<and> fixle_sample tape st = map (\<lambda>j. ofh st ! j) idxs"
    by blast
  have n5: "n_btypes st = 5" using n b ot lb by simp
  from sample obtain idxs where "length idxs = n_btypes st"
    "fixle_sample demo_tape st = map (\<lambda>j. ofh st ! j) idxs"
    by blast
  then have l5: "length (fixle_sample demo_tape st) = 5" using n5 by simp
  have none: "\<not> (\<exists>toks\<in>set scenario_bed. row_type 4 toks \<noteq> Some ''Pol2''
                     \<and> row_type 4 toks = Some ''Pol2'')"
    by blast
  from fixle_draws_from_background_pool [OF cols, of "''Pol2''" "''Pol2''"] none
  have failb: "fixle_files scenario_bed ''Pol2'' ''Pol2'' 4 = Inl AssertionError"
    by blast
  have colsl: "list_all (\<lambda>toks. row_type 4 toks \<noteq> None) scenario_bed"
    using cols by (simp add: list_all_iff)
  show ?thesis
    using colsl some run a ot la lo n5 l5 failb by auto
qed

end
